theory Spec2Isabelle
  imports Complex_Main
begin

section \<open>Car EMI calculator: the amortization engine\<close>

text \<open>
  The engine of \<^verbatim>\<open>car-emi-calculator.py\<close>: the installment formula
  (\<^verbatim>\<open>calculate_car_emi\<close>), the month-by-month schedule
  (\<^verbatim>\<open>build_monthly_schedule\<close>), the yearly roll-up (\<^verbatim>\<open>aggregate_yearly\<close>) and
  the part of \<^verbatim>\<open>main\<close> that derives the principal and the percentage of the loan paid.

  The engine is modelled twice. In the first model amounts are exact rationals
  (\<^typ>\<open>rat\<close>): the arithmetic of the source without the rounding of binary floating
  point. In the second model, whose names end in \<open>_f64\<close>, amounts are IEEE 754 doubles
  and every operation rounds. Year and month counters are Python integers
  (\<^typ>\<open>int\<close>). A Python exception is a value \<open>Inl e\<close> of a sum type.
\<close>

subsection \<open>Errors\<close>

datatype error = ZeroDivisionError | IndexError | OverflowError

subsection \<open>Monthly EMI calculation\<close>

text \<open>
  \<^verbatim>\<open>calculate_car_emi\<close>, lines 20--50. The two early returns come first, in the
  order of the source; the division of the last branch raises when its divisor is zero.
  The exponent \<^verbatim>\<open>total_months\<close> is positive wherever the power is evaluated.
\<close>

definition calculate_car_emi :: "rat \<Rightarrow> rat \<Rightarrow> int \<Rightarrow> error + rat" where
  "calculate_car_emi principal' annual_interest_rate loan_tenure_years =
     (let monthly_interest_rate = (annual_interest_rate / 100) / 12;
          total_months = loan_tenure_years * 12
      in if total_months \<le> 0 then Inr 0
         else if monthly_interest_rate = 0 then Inr (principal' / of_int total_months)
         else if (1 + monthly_interest_rate) ^ nat total_months - 1 = 0
           then Inl ZeroDivisionError
         else Inr ((principal' * monthly_interest_rate
                     * (1 + monthly_interest_rate) ^ nat total_months)
                   / ((1 + monthly_interest_rate) ^ nat total_months - 1)))"

subsection \<open>Monthly amortization schedule\<close>

text \<open>
  A row of a data frame with a \<^verbatim>\<open>Year\<close> column. The monthly and the yearly frames
  both have that column, so their rows extend this record.
\<close>

record year_key =
  Year :: int

record monthly_row = year_key +
  MonthNum :: int
  MonthAbbr :: string
  OldBalance :: rat
  InterestPaid :: rat
  PrincipalPaid :: rat
  Prepayment :: rat
  NewBalance :: rat

text \<open>\<^verbatim>\<open>calendar.month_abbr\<close>: index 0 is the empty string, 1..12 the months.\<close>

definition month_abbr :: "string list" where
  "month_abbr = ['''', ''Jan'', ''Feb'', ''Mar'', ''Apr'', ''May'', ''Jun'',
                 ''Jul'', ''Aug'', ''Sep'', ''Oct'', ''Nov'', ''Dec'']"

text \<open>Lines 94--99: the prepayment of month \<^verbatim>\<open>current_month\<close>.\<close>

definition prepay_amount :: "rat \<Rightarrow> rat \<Rightarrow> int \<Rightarrow> rat" where
  "prepay_amount monthly_prepayment quarterly_prepayment current_month =
     (let p0 = 0;
          p1 = (if monthly_prepayment > 0 then p0 + monthly_prepayment else p0);
          p2 = (if current_month mod 3 = 0 \<and> quarterly_prepayment > 0
                then p1 + quarterly_prepayment else p1)
      in p2)"

text \<open>Lines 101--108: the balance after the two deductions, clamped at 0.\<close>

definition next_balance :: "rat \<Rightarrow> rat \<Rightarrow> rat \<Rightarrow> rat" where
  "next_balance balance principal_payment prepay =
     (let b1 = balance - principal_payment;
          b2 = b1 - prepay
      in if b2 < 0 then 0 else b2)"

text \<open>Lines 84--119: the record appended in one pass of the loop body.\<close>

definition month_row :: "rat \<Rightarrow> rat \<Rightarrow> rat \<Rightarrow> rat \<Rightarrow> int \<Rightarrow> rat \<Rightarrow> int \<Rightarrow> monthly_row" where
  "month_row monthly_interest_rate emi monthly_prepayment quarterly_prepayment start_year
             balance current_month =
     (let year_offset = (current_month - 1) div 12;
          this_year = start_year + year_offset;
          month_index = (current_month - 1) mod 12;
          interest_payment = balance * monthly_interest_rate;
          principal_payment = emi - interest_payment;
          prepay = prepay_amount monthly_prepayment quarterly_prepayment current_month
      in \<lparr> Year = this_year,
           MonthNum = current_month,
           MonthAbbr = month_abbr ! nat (month_index + 1),
           OldBalance = balance,
           InterestPaid = interest_payment,
           PrincipalPaid = principal_payment,
           Prepayment = prepay,
           NewBalance = next_balance balance principal_payment prepay \<rparr>)"

text \<open>
  The \<^verbatim>\<open>while\<close> loop of lines 83--121, with its state \<^verbatim>\<open>balance\<close>,
  \<^verbatim>\<open>current_month\<close> and \<^verbatim>\<open>data_rows\<close> passed explicitly.
\<close>

function schedule_loop ::
  "rat \<Rightarrow> rat \<Rightarrow> int \<Rightarrow> rat \<Rightarrow> rat \<Rightarrow> int \<Rightarrow> rat \<Rightarrow> int \<Rightarrow> monthly_row list \<Rightarrow> monthly_row list"
where
  "schedule_loop monthly_interest_rate emi total_months monthly_prepayment
                 quarterly_prepayment start_year balance current_month data_rows =
     (if balance > 0 \<and> current_month \<le> total_months then
        (let row = month_row monthly_interest_rate emi monthly_prepayment
                     quarterly_prepayment start_year balance current_month
         in schedule_loop monthly_interest_rate emi total_months monthly_prepayment
              quarterly_prepayment start_year (NewBalance row) (current_month + 1)
              (data_rows @ [row]))
      else data_rows)"
  by pat_completeness auto
termination
  by (relation "measure (\<lambda>(r, e, total_months, mp, qp, sy, b, current_month, rows).
                   nat (total_months + 1 - current_month))") auto

declare schedule_loop.simps [simp del]

text \<open>\<^verbatim>\<open>build_monthly_schedule\<close>, lines 57--125.\<close>

definition build_monthly_schedule ::
  "rat \<Rightarrow> rat \<Rightarrow> int \<Rightarrow> rat \<Rightarrow> rat \<Rightarrow> int \<Rightarrow> error + monthly_row list" where
  "build_monthly_schedule principal' annual_interest_rate loan_tenure_years
                          monthly_prepayment quarterly_prepayment start_year =
     (let monthly_interest_rate = (annual_interest_rate / 100) / 12;
          total_months = loan_tenure_years * 12
      in case calculate_car_emi principal' annual_interest_rate loan_tenure_years of
           Inl e \<Rightarrow> Inl e
         | Inr emi \<Rightarrow>
             Inr (schedule_loop monthly_interest_rate emi total_months monthly_prepayment
                    quarterly_prepayment start_year principal' 1 []))"

text \<open>
  The loop without its accumulator: the rows appended from the state
  \<open>(balance, current_month)\<close> on. It is related to \<open>schedule_loop\<close> by
  \<open>schedule_loop_rows\<close> below and serves the proofs only.
\<close>

function rows_from ::
  "rat \<Rightarrow> rat \<Rightarrow> int \<Rightarrow> rat \<Rightarrow> rat \<Rightarrow> int \<Rightarrow> rat \<Rightarrow> int \<Rightarrow> monthly_row list"
where
  "rows_from monthly_interest_rate emi total_months monthly_prepayment
             quarterly_prepayment start_year balance current_month =
     (if balance > 0 \<and> current_month \<le> total_months then
        month_row monthly_interest_rate emi monthly_prepayment
          quarterly_prepayment start_year balance current_month
        # rows_from monthly_interest_rate emi total_months monthly_prepayment
            quarterly_prepayment start_year
            (NewBalance (month_row monthly_interest_rate emi monthly_prepayment
                           quarterly_prepayment start_year balance current_month))
            (current_month + 1)
      else [])"
  by pat_completeness auto
termination
  by (relation "measure (\<lambda>(r, e, total_months, mp, qp, sy, b, current_month).
                   nat (total_months + 1 - current_month))") auto

declare rows_from.simps [simp del]

subsection \<open>Yearly aggregation\<close>

record year_agg = year_key +
  PrincipalSum :: rat
  PrepaymentSum :: rat
  InterestSum :: rat
  FinalBalance :: rat

record yearly_row = year_agg +
  TotalPayment :: rat

text \<open>
  Lines 144--150: the aggregator applied to one group. \<^verbatim>\<open>iloc[-1]\<close> raises on an
  empty group.
\<close>

definition aggregator :: "monthly_row list \<Rightarrow> error + (rat \<times> rat \<times> rat \<times> rat)" where
  "aggregator x =
     (if x = [] then Inl IndexError
      else Inr (sum_list (map PrincipalPaid x),
                sum_list (map Prepayment x),
                sum_list (map InterestPaid x),
                NewBalance (last x)))"

text \<open>
  Line 154, \<^verbatim>\<open>groupby("Year").apply(aggregator).reset_index()\<close>: the groups are the
  distinct years in increasing order, each group holds the rows of its year in the order
  of the frame, and the year becomes a column of the result.
\<close>

fun apply_groups :: "(int \<Rightarrow> monthly_row list) \<Rightarrow> int list \<Rightarrow> error + year_agg list" where
  "apply_groups grp [] = Inr []"
| "apply_groups grp (y # ys) =
     (case aggregator (grp y) of
        Inl e \<Rightarrow> Inl e
      | Inr (p, pp, i, f) \<Rightarrow>
          (case apply_groups grp ys of
             Inl e \<Rightarrow> Inl e
           | Inr rest \<Rightarrow>
               Inr (\<lparr> Year = y, PrincipalSum = p, PrepaymentSum = pp,
                      InterestSum = i, FinalBalance = f \<rparr> # rest)))"

definition groupby_apply :: "monthly_row list \<Rightarrow> error + year_agg list" where
  "groupby_apply df_monthly =
     apply_groups (\<lambda>y. filter (\<lambda>r. Year r = y) df_monthly)
                  (sort (remdups (map Year df_monthly)))"

text \<open>
  Line 159, \<^verbatim>\<open>pd.merge(df_all_years, df_yearly, on="Year", how="left")\<close>: every left
  year in the order of the left frame, once for each right row of that year, and once
  with missing values (\<open>None\<close>) when there is none.
\<close>

definition merge_left :: "int list \<Rightarrow> year_agg list \<Rightarrow> (int \<times> year_agg option) list" where
  "merge_left all_years df_yearly =
     concat (map (\<lambda>y. case filter (\<lambda>a. Year a = y) df_yearly of
                         [] \<Rightarrow> [(y, None)]
                       | ms \<Rightarrow> map (\<lambda>a. (y, Some a)) ms) all_years)"

text \<open>\<^verbatim>\<open>.fillna(0)\<close>: the missing values of a row become 0.\<close>

fun fillna0 :: "int \<times> year_agg option \<Rightarrow> year_agg" where
  "fillna0 (y, None) = \<lparr> Year = y, PrincipalSum = 0, PrepaymentSum = 0,
                          InterestSum = 0, FinalBalance = 0 \<rparr>"
| "fillna0 (y, Some a) = a"

text \<open>Lines 163 and 166: the total payment, and the final balance clamped at 0.\<close>

definition with_total :: "year_agg \<Rightarrow> yearly_row" where
  "with_total a =
     \<lparr> Year = Year a, PrincipalSum = PrincipalSum a, PrepaymentSum = PrepaymentSum a,
       InterestSum = InterestSum a, FinalBalance = max 0 (FinalBalance a),
       TotalPayment = PrincipalSum a + InterestSum a + PrepaymentSum a \<rparr>"

text \<open>\<^verbatim>\<open>aggregate_yearly\<close>, lines 132--168.\<close>

definition aggregate_yearly :: "monthly_row list \<Rightarrow> int \<Rightarrow> int \<Rightarrow> error + yearly_row list" where
  "aggregate_yearly df_monthly start_year loan_tenure_years =
     (case (if df_monthly = [] then Inr [] else groupby_apply df_monthly) of
        Inl e \<Rightarrow> Inl e
      | Inr df_yearly \<Rightarrow>
          (let all_years = [start_year ..  start_year + loan_tenure_years - 1];
               merged = map fillna0 (merge_left all_years df_yearly);
               sorted_rows = sort_key Year merged
           in Inr (map with_total sorted_rows)))"

text \<open>
  The row that \<open>groupby_apply\<close> yields for the year \<open>y\<close> of a frame that has rows of
  that year; it serves the proofs only.
\<close>

definition group_row :: "monthly_row list \<Rightarrow> int \<Rightarrow> year_agg" where
  "group_row df y =
     \<lparr> Year = y,
       PrincipalSum = sum_list (map PrincipalPaid (filter (\<lambda>r. Year r = y) df)),
       PrepaymentSum = sum_list (map Prepayment (filter (\<lambda>r. Year r = y) df)),
       InterestSum = sum_list (map InterestPaid (filter (\<lambda>r. Year r = y) df)),
       FinalBalance = NewBalance (last (filter (\<lambda>r. Year r = y) df)) \<rparr>"

subsection \<open>Percentage of the loan paid\<close>

text \<open>\<^verbatim>\<open>Series.cumsum()\<close>: the running sums of a column.\<close>

fun cumsum_from :: "rat \<Rightarrow> rat list \<Rightarrow> rat list" where
  "cumsum_from acc [] = []"
| "cumsum_from acc (x # xs) = (acc + x) # cumsum_from (acc + x) xs"

definition cumsum :: "rat list \<Rightarrow> rat list" where
  "cumsum xs = cumsum_from 0 xs"

text \<open>
  Lines 229--237 of \<^verbatim>\<open>main\<close>: the column \<^verbatim>\<open>PctLoanPaid\<close> of the yearly frame, from
  the principal before the one-time prepayment.
\<close>

definition pct_loan_paid :: "rat \<Rightarrow> yearly_row list \<Rightarrow> rat list" where
  "pct_loan_paid initial_car_loan_principal df_yearly =
     (let cumulativePP = map2 (+) (cumsum (map PrincipalSum df_yearly))
                                  (cumsum (map PrepaymentSum df_yearly));
          pct = (if initial_car_loan_principal > 0
                 then map (\<lambda>c. min ((c / initial_car_loan_principal) * 100) 100) cumulativePP
                 else map (\<lambda>_. 100) df_yearly)
      in map2 (\<lambda>row p. if FinalBalance row \<le> 0 then 100 else p) df_yearly pct)"

text \<open>
  Lines 196--237 of \<^verbatim>\<open>main\<close>, from the form's values to the yearly frame and its
  \<^verbatim>\<open>PctLoanPaid\<close> column. The amounts of the form are integers, the rate is a decimal.
\<close>

definition principal_before_one_time :: "int \<Rightarrow> int \<Rightarrow> int \<Rightarrow> rat" where
  "principal_before_one_time car_price down_payment_percentage insurance_or_fees =
     (let down_payment_amt = of_int (car_price * down_payment_percentage) / 100
      in of_int car_price - down_payment_amt - of_int insurance_or_fees)"

definition effective_principal :: "int \<Rightarrow> int \<Rightarrow> int \<Rightarrow> int \<Rightarrow> rat" where
  "effective_principal car_price down_payment_percentage insurance_or_fees one_time_prepay =
     (let p = principal_before_one_time car_price down_payment_percentage insurance_or_fees
              - of_int one_time_prepay
      in if p < 0 then 0 else p)"

definition main_yearly ::
  "int \<Rightarrow> int \<Rightarrow> rat \<Rightarrow> int \<Rightarrow> int \<Rightarrow> int \<Rightarrow> int \<Rightarrow> int \<Rightarrow> int
   \<Rightarrow> error + (yearly_row list \<times> rat list)" where
  "main_yearly car_price down_payment_percentage annual_interest_rate loan_tenure_years
               insurance_or_fees start_year monthly_prepay quarterly_prepay one_time_prepay =
     (case build_monthly_schedule
             (effective_principal car_price down_payment_percentage insurance_or_fees
                one_time_prepay)
             annual_interest_rate loan_tenure_years
             (of_int monthly_prepay) (of_int quarterly_prepay) start_year of
        Inl e \<Rightarrow> Inl e
      | Inr df_monthly \<Rightarrow>
          (case aggregate_yearly df_monthly start_year loan_tenure_years of
             Inl e \<Rightarrow> Inl e
           | Inr df_yearly \<Rightarrow>
               Inr (df_yearly,
                    pct_loan_paid
                      (principal_before_one_time car_price down_payment_percentage
                         insurance_or_fees)
                      df_yearly)))"

section \<open>The engine in double precision\<close>

text \<open>
  The program computes with Python floats, that is IEEE 754 binary64 numbers. The
  definitions below, marked \<open>_f64\<close>, follow the same source lines as the exact ones
  above, with every arithmetic operation rounded as the hardware rounds it and with the
  exceptions Python raises. They decide the claims whose truth depends on rounding or
  on the range of a double.
\<close>

subsection \<open>Doubles\<close>

text \<open>
  A double is a finite rational, an infinity or a NaN. The two zeros are not
  distinguished: the program never observes the sign of a zero (a division by either
  zero raises, and comparisons treat them alike).
\<close>

datatype f64 = Fin rat | PInf | NInf | NaN

text \<open>The number of binary digits of a natural number (Python's \<^verbatim>\<open>int.bit_length\<close>).\<close>

fun bit_length :: "nat \<Rightarrow> nat" where
  "bit_length n = (if n = 0 then 0 else Suc (bit_length (n div 2)))"

declare bit_length.simps [simp del]

text \<open>The binary exponent \<open>\<lfloor>log\<^sub>2 x\<rfloor>\<close> of a positive rational.\<close>

definition ilog2 :: "rat \<Rightarrow> int" where
  "ilog2 x = (if 1 \<le> x then int (bit_length (nat \<lfloor>x\<rfloor>)) - 1
              else - int (bit_length (nat (\<lceil>1 / x\<rceil> - 1))))"

text \<open>Rounding to the nearest integer, ties to the even one.\<close>

definition round_half_even :: "rat \<Rightarrow> int" where
  "round_half_even m =
     (let n = \<lfloor>m\<rfloor>; f = m - of_int n
      in if f < 1 / 2 then n else if 1 / 2 < f then n + 1 else if even n then n else n + 1)"

text \<open>
  The exponent of the spacing of the doubles around a positive \<open>x\<close>: 53 significant
  bits, and the fixed spacing \<open>2\<^sup>-\<^sup>1\<^sup>0\<^sup>7\<^sup>4\<close> of the subnormal range.
\<close>

definition ulp_exp :: "rat \<Rightarrow> int" where
  "ulp_exp x = max (ilog2 x - 52) (- 1074)"

definition round_val :: "rat \<Rightarrow> rat" where
  "round_val x = of_int (round_half_even (x / 2 powi ulp_exp x)) * 2 powi ulp_exp x"

text \<open>
  Round to nearest, ties to even, overflowing to an infinity: the double that an
  arithmetic operation returns for the exact result \<open>x\<close>, and the double that a decimal
  literal \<open>x\<close> of the source denotes.
\<close>

definition rnd :: "rat \<Rightarrow> f64" where
  "rnd x = (if x = 0 then Fin 0
            else if 0 < x then (if 2 ^ 1024 \<le> round_val x then PInf else Fin (round_val x))
            else (if 2 ^ 1024 \<le> round_val (- x) then NInf else Fin (- round_val (- x))))"

text \<open>Comparisons: every comparison with a NaN is false.\<close>

fun f_lt :: "f64 \<Rightarrow> f64 \<Rightarrow> bool" where
  "f_lt NaN y = False"
| "f_lt x NaN = False"
| "f_lt (Fin a) (Fin b) = (a < b)"
| "f_lt (Fin a) PInf = True"
| "f_lt (Fin a) NInf = False"
| "f_lt PInf y = False"
| "f_lt NInf (Fin b) = True"
| "f_lt NInf PInf = True"
| "f_lt NInf NInf = False"

definition f_le :: "f64 \<Rightarrow> f64 \<Rightarrow> bool" where
  "f_le x y = (f_lt x y \<or> (x = y \<and> x \<noteq> NaN))"

text \<open>The arithmetic of IEEE 754; an operation on finite operands rounds the exact result.\<close>

fun f_neg :: "f64 \<Rightarrow> f64" where
  "f_neg (Fin a) = Fin (- a)"
| "f_neg PInf = NInf"
| "f_neg NInf = PInf"
| "f_neg NaN = NaN"

fun f_add :: "f64 \<Rightarrow> f64 \<Rightarrow> f64" where
  "f_add NaN y = NaN"
| "f_add x NaN = NaN"
| "f_add (Fin a) (Fin b) = rnd (a + b)"
| "f_add PInf NInf = NaN"
| "f_add NInf PInf = NaN"
| "f_add PInf y = PInf"
| "f_add NInf y = NInf"
| "f_add (Fin a) y = y"

definition f_sub :: "f64 \<Rightarrow> f64 \<Rightarrow> f64" where
  "f_sub x y = f_add x (f_neg y)"

fun f_mul :: "f64 \<Rightarrow> f64 \<Rightarrow> f64" where
  "f_mul NaN y = NaN"
| "f_mul x NaN = NaN"
| "f_mul (Fin a) (Fin b) = rnd (a * b)"
| "f_mul (Fin a) y = (if a = 0 then NaN else if 0 < a then y else f_neg y)"
| "f_mul x (Fin b) = (if b = 0 then NaN else if 0 < b then x else f_neg x)"
| "f_mul PInf y = y"
| "f_mul NInf y = f_neg y"

text \<open>
  The quotient by a divisor that is not zero. The program divides by the constants 100
  and 12, by a positive number of months, by a divisor that \<open>py_div\<close> has tested, and
  by an initial principal that it has tested to be positive; the value given here for a
  zero divisor is never used.
\<close>

fun f_div :: "f64 \<Rightarrow> f64 \<Rightarrow> f64" where
  "f_div NaN y = NaN"
| "f_div x NaN = NaN"
| "f_div (Fin a) (Fin b) = (if b = 0 then NaN else rnd (a / b))"
| "f_div (Fin a) y = Fin 0"
| "f_div x (Fin b) = (if 0 < b then x else if b < 0 then f_neg x else NaN)"
| "f_div x y = NaN"

text \<open>Python's \<^verbatim>\<open>x / y\<close> on floats: a zero divisor raises \<^verbatim>\<open>ZeroDivisionError\<close>.\<close>

definition py_div :: "f64 \<Rightarrow> f64 \<Rightarrow> error + f64" where
  "py_div x y = (if y = Fin 0 then Inl ZeroDivisionError else Inr (f_div x y))"

text \<open>
  The conversion of a Python integer to a float, done when an integer meets a float in
  an operation: correctly rounded, \<^verbatim>\<open>OverflowError\<close> beyond the range of a double.
\<close>

definition py_float :: "int \<Rightarrow> error + f64" where
  "py_float n = (case rnd (of_int n) of Fin v \<Rightarrow> Inr (Fin v) | _ \<Rightarrow> Inl OverflowError)"

text \<open>
  Python's \<^verbatim>\<open>x ** n\<close> for a float \<open>x\<close> and an integer \<open>n\<close>: the exponent is converted to
  a float, the power of a finite non-zero base is rounded once, and a finite base whose
  power exceeds the range of a double raises \<^verbatim>\<open>OverflowError\<close>. (The C library's \<^verbatim>\<open>pow\<close>
  returns the exact power wherever it is a double, as at every input evaluated below.)
\<close>

definition py_pow :: "f64 \<Rightarrow> int \<Rightarrow> error + f64" where
  "py_pow x n =
     (case rnd (of_int n) of
        Fin w \<Rightarrow>
          (let k = \<lfloor>w\<rfloor>
           in if k = 0 then Inr (Fin 1)
              else case x of
                NaN \<Rightarrow> Inr NaN
              | PInf \<Rightarrow> Inr (if 0 < k then PInf else Fin 0)
              | NInf \<Rightarrow> Inr (if 0 < k then (if odd k then NInf else PInf) else Fin 0)
              | Fin b \<Rightarrow>
                  if b = 0 then (if 0 < k then Inr (Fin 0) else Inl ZeroDivisionError)
                  else (case rnd (b powi k) of
                          Fin v \<Rightarrow> Inr (Fin v)
                        | _ \<Rightarrow> Inl OverflowError))
      | _ \<Rightarrow> Inl OverflowError)"

subsection \<open>Monthly EMI calculation in double precision\<close>

text \<open>
  \<^verbatim>\<open>calculate_car_emi\<close>, lines 20--50. The numerator is evaluated before the
  denominator, so an overflowing power raises before the division is tried.
\<close>

definition calculate_car_emi_f64 :: "f64 \<Rightarrow> f64 \<Rightarrow> int \<Rightarrow> error + f64" where
  "calculate_car_emi_f64 principal' annual_interest_rate loan_tenure_years =
     (let monthly_interest_rate = f_div (f_div annual_interest_rate (Fin 100)) (Fin 12);
          total_months = loan_tenure_years * 12
      in if total_months \<le> 0 then Inr (Fin 0)
         else if monthly_interest_rate = Fin 0 then
           (case py_float total_months of
              Inl e \<Rightarrow> Inl e
            | Inr n \<Rightarrow> py_div principal' n)
         else
           (case py_pow (f_add (Fin 1) monthly_interest_rate) total_months of
              Inl e \<Rightarrow> Inl e
            | Inr q \<Rightarrow>
                py_div (f_mul (f_mul principal' monthly_interest_rate) q) (f_sub q (Fin 1))))"

subsection \<open>Monthly amortization schedule in double precision\<close>

record monthly_row_f64 = year_key +
  MonthNum_f64 :: int
  MonthAbbr_f64 :: string
  OldBalance_f64 :: f64
  InterestPaid_f64 :: f64
  PrincipalPaid_f64 :: f64
  Prepayment_f64 :: f64
  NewBalance_f64 :: f64

text \<open>Lines 94--99. The sum starts from the float 0.0.\<close>

definition prepay_amount_f64 :: "f64 \<Rightarrow> f64 \<Rightarrow> int \<Rightarrow> f64" where
  "prepay_amount_f64 monthly_prepayment quarterly_prepayment current_month =
     (let p0 = Fin 0;
          p1 = (if f_lt (Fin 0) monthly_prepayment then f_add p0 monthly_prepayment else p0);
          p2 = (if current_month mod 3 = 0 \<and> f_lt (Fin 0) quarterly_prepayment
                then f_add p1 quarterly_prepayment else p1)
      in p2)"

text \<open>Lines 101--108: two rounded subtractions, then the clamp at 0.\<close>

definition next_balance_f64 :: "f64 \<Rightarrow> f64 \<Rightarrow> f64 \<Rightarrow> f64" where
  "next_balance_f64 balance principal_payment prepay =
     (let b1 = f_sub balance principal_payment;
          b2 = f_sub b1 prepay
      in if f_lt b2 (Fin 0) then Fin 0 else b2)"

text \<open>Lines 84--119.\<close>

definition month_row_f64 ::
  "f64 \<Rightarrow> f64 \<Rightarrow> f64 \<Rightarrow> f64 \<Rightarrow> int \<Rightarrow> f64 \<Rightarrow> int \<Rightarrow> monthly_row_f64" where
  "month_row_f64 monthly_interest_rate emi monthly_prepayment quarterly_prepayment start_year
                 balance current_month =
     (let year_offset = (current_month - 1) div 12;
          this_year = start_year + year_offset;
          month_index = (current_month - 1) mod 12;
          interest_payment = f_mul balance monthly_interest_rate;
          principal_payment = f_sub emi interest_payment;
          prepay = prepay_amount_f64 monthly_prepayment quarterly_prepayment current_month
      in \<lparr> Year = this_year,
           MonthNum_f64 = current_month,
           MonthAbbr_f64 = month_abbr ! nat (month_index + 1),
           OldBalance_f64 = balance,
           InterestPaid_f64 = interest_payment,
           PrincipalPaid_f64 = principal_payment,
           Prepayment_f64 = prepay,
           NewBalance_f64 = next_balance_f64 balance principal_payment prepay \<rparr>)"




text \<open>The loop without its accumulator; it serves the proofs only.\<close>

function rows_from_f64 ::
  "f64 \<Rightarrow> f64 \<Rightarrow> int \<Rightarrow> f64 \<Rightarrow> f64 \<Rightarrow> int \<Rightarrow> f64 \<Rightarrow> int \<Rightarrow> monthly_row_f64 list"
where
  "rows_from_f64 monthly_interest_rate emi total_months monthly_prepayment
                 quarterly_prepayment start_year balance current_month =
     (if f_lt (Fin 0) balance \<and> current_month \<le> total_months then
        month_row_f64 monthly_interest_rate emi monthly_prepayment
          quarterly_prepayment start_year balance current_month
        # rows_from_f64 monthly_interest_rate emi total_months monthly_prepayment
            quarterly_prepayment start_year
            (NewBalance_f64 (month_row_f64 monthly_interest_rate emi monthly_prepayment
                               quarterly_prepayment start_year balance current_month))
            (current_month + 1)
      else [])"
  by pat_completeness auto
termination
  by (relation "measure (\<lambda>(r, e, total_months, mp, qp, sy, b, current_month).
                   nat (total_months + 1 - current_month))") auto

declare rows_from_f64.simps [simp del]

section \<open>The schedule loop\<close>

text \<open>The loop returns its accumulator followed by the rows it appends.\<close>

lemma schedule_loop_rows:
  "schedule_loop r e tm mp qp sy b m acc = acc @ rows_from r e tm mp qp sy b m"
proof (induction r e tm mp qp sy b m acc rule: schedule_loop.induct)
  case (1 r e tm mp qp sy b m acc)
  show ?case
  proof (cases "b > 0 \<and> m \<le> tm")
    case True
    then show ?thesis
      using "1.IH" [OF True refl]
      by (subst schedule_loop.simps, subst rows_from.simps) (simp add: Let_def)
  next
    case False
    then show ?thesis
      by (subst schedule_loop.simps, subst rows_from.simps) auto
  qed
qed

lemma month_row_fields [simp]:
  "Year (month_row r e mp qp sy b m) = sy + (m - 1) div 12"
  "MonthNum (month_row r e mp qp sy b m) = m"
  "OldBalance (month_row r e mp qp sy b m) = b"
  "InterestPaid (month_row r e mp qp sy b m) = b * r"
  "PrincipalPaid (month_row r e mp qp sy b m) = e - b * r"
  "Prepayment (month_row r e mp qp sy b m) = prepay_amount mp qp m"
  "NewBalance (month_row r e mp qp sy b m) = next_balance b (e - b * r) (prepay_amount mp qp m)"
  by (simp_all add: month_row_def Let_def)


lemma rows_from_stop:
  "\<not> (b > 0 \<and> m \<le> tm) \<Longrightarrow> rows_from r e tm mp qp sy b m = []"
  by (subst rows_from.simps) auto

lemma rows_from_step:
  "b > 0 \<Longrightarrow> m \<le> tm \<Longrightarrow> rows_from r e tm mp qp sy b m =
     month_row r e mp qp sy b m
     # rows_from r e tm mp qp sy (next_balance b (e - b * r) (prepay_amount mp qp m)) (m + 1)"
  by (subst rows_from.simps) simp


lemma rows_from_nth:
  "i < length (rows_from r e tm mp qp sy b m) \<Longrightarrow>
     \<exists>b'. 0 < b' \<and> m + int i \<le> tm \<and> rows_from r e tm mp qp sy b m ! i = month_row r e mp qp sy b' (m + int i)"
proof (induction r e tm mp qp sy b m arbitrary: i rule: rows_from.induct)
  case (1 r e tm mp qp sy b m)
  show ?case
  proof (cases "b > 0 \<and> m \<le> tm")
    case True
    show ?thesis
    proof (cases i)
      case 0
      with True show ?thesis by (auto simp: rows_from_step)
    next
      case (Suc j)
      with "1.prems" True have "j < length (rows_from r e tm mp qp sy (NewBalance (month_row r e mp qp sy b m)) (m + 1))"
        by (simp add: rows_from_step)
      from "1.IH" [OF True this] Suc True show ?thesis
        by (auto simp: rows_from_step add.assoc)
    qed
  next
    case False
    with "1.prems" show ?thesis by (simp add: rows_from_stop)
  qed
qed


section \<open>The installment formula\<close>


section \<open>Invariants of the schedule\<close>


lemma build_monthly_schedule_rows:
  assumes "calculate_car_emi p rate years = Inr emi"
  shows "build_monthly_schedule p rate years mp qp sy =
           Inr (rows_from ((rate / 100) / 12) emi (years * 12) mp qp sy p 1)"
  using assms by (simp add: build_monthly_schedule_def Let_def schedule_loop_rows)



section \<open>Claims about the schedule\<close>




section \<open>The yearly aggregation\<close>

lemma apply_groups_nonempty:
  "\<forall>y \<in> set ks. grp y \<noteq> [] \<Longrightarrow>
     apply_groups grp ks =
       Inr (map (\<lambda>y. \<lparr> Year = y,
                         PrincipalSum = sum_list (map PrincipalPaid (grp y)),
                         PrepaymentSum = sum_list (map Prepayment (grp y)),
                         InterestSum = sum_list (map InterestPaid (grp y)),
                         FinalBalance = NewBalance (last (grp y)) \<rparr>) ks)"
  by (induction ks) (simp_all add: aggregator_def)

lemma groupby_apply_groups:
  "groupby_apply df = Inr (map (group_row df) (sort (remdups (map Year df))))"
proof -
  have "\<forall>y \<in> set (sort (remdups (map Year df))). filter (\<lambda>r. Year r = y) df \<noteq> []"
    by (auto simp: filter_empty_conv)
  from apply_groups_nonempty [OF this] show ?thesis
    by (simp add: groupby_apply_def group_row_def [abs_def])
qed

lemma filter_eq_distinct:
  "distinct ks \<Longrightarrow> filter (\<lambda>k. k = y) ks = (if y \<in> set ks then [y] else [])"
  by (induction ks) auto

lemma filter_year_map:
  assumes "distinct ks" and "\<And>k. Year (f k) = k"
  shows "filter (\<lambda>a. Year a = y) (map f ks) = (if y \<in> set ks then [f y] else [])"
proof -
  have "filter (\<lambda>a. Year a = y) (map f ks) = map f (filter (\<lambda>k. k = y) ks)"
    by (simp add: filter_map comp_def assms(2))
  then show ?thesis by (simp add: filter_eq_distinct [OF assms(1)])
qed

lemma merge_left_unique:
  assumes "distinct ks" and "\<And>k. Year (f k) = k"
  shows "merge_left all_years (map f ks) =
           map (\<lambda>y. (y, if y \<in> set ks then Some (f y) else None)) all_years"
  unfolding merge_left_def
  by (induction all_years) (simp_all add: filter_year_map [OF assms])

lemma merge_left_empty:
  "merge_left all_years [] = map (\<lambda>y. (y, None)) all_years"
  unfolding merge_left_def by (induction all_years) simp_all

lemma Year_group_row [simp]: "Year (group_row df y) = y"
  by (simp add: group_row_def)

lemma Year_fillna0 [simp]: "Year (fillna0 (y, None)) = y"
  by simp

lemma Year_with_total [simp]: "Year (with_total a) = Year a"
  by (simp add: with_total_def)

lemma map_Year_id: "(\<And>y. Year (g y) = y) \<Longrightarrow> map Year (map g ys) = ys"
  by (induction ys) simp_all

lemma aggregate_yearly_rows:
  "aggregate_yearly df sy t =
     Inr (map (\<lambda>y. with_total (if filter (\<lambda>r. Year r = y) df = []
                                 then fillna0 (y, None) else group_row df y))
              [sy .. sy + t - 1])"
proof -
  let ?g = "\<lambda>y. if filter (\<lambda>r. Year r = y) df = [] then fillna0 (y, None) else group_row df y"
  let ?ys = "[sy .. sy + t - 1]"
  have srt: "sort_key Year (map ?g ?ys) = map ?g ?ys"
  proof (rule sort_key_id_if_sorted)
    have "map Year (map ?g ?ys) = ?ys" by (rule map_Year_id) simp
    then show "sorted (map Year (map ?g ?ys))" by simp
  qed
  show ?thesis
  proof (cases "df = []")
    case True
    then have "map fillna0 (merge_left ?ys []) = map ?g ?ys"
      by (simp add: merge_left_empty comp_def)
    with True srt show ?thesis by (simp add: aggregate_yearly_def Let_def)
  next
    case False
    let ?ks = "sort (remdups (map Year df))"
    have mem: "y \<in> set ?ks \<longleftrightarrow> filter (\<lambda>r. Year r = y) df \<noteq> []" for y
      by (auto simp: filter_empty_conv)
    have "merge_left ?ys (map (group_row df) ?ks) =
            map (\<lambda>y. (y, if y \<in> set ?ks then Some (group_row df y) else None)) ?ys"
      by (rule merge_left_unique) simp_all
    then have "map fillna0 (merge_left ?ys (map (group_row df) ?ks)) = map ?g ?ys"
      by (auto simp: comp_def filter_empty_conv)
    with False srt show ?thesis
      by (simp add: aggregate_yearly_def Let_def groupby_apply_groups)
  qed
qed

text \<open>
  C4. For every record sequence, start year and tenure, \<open>aggregate_yearly\<close> returns
  \<open>tenure\<close> summaries, one per year of \<open>[startYear, startYear + tenure)\<close> in
  increasing order. A year without records has all sums 0 and final balance 0; a year
  with records has the sums of its records' fields and the closing balance of its last
  record, floored at 0; and \<open>TotalPayment = PrincipalSum + InterestSum + PrepaymentSum\<close>.
\<close>

theorem aggregate_yearly_summaries:
  "\<exists>ys. aggregate_yearly df sy t = Inr ys
        \<and> length ys = nat t
        \<and> map Year ys = [sy .. sy + t - 1]
        \<and> (\<forall>s \<in> set ys.
              (filter (\<lambda>r. Year r = Year s) df = [] \<longrightarrow>
                 PrincipalSum s = 0 \<and> PrepaymentSum s = 0 \<and> InterestSum s = 0
                 \<and> FinalBalance s = 0)
            \<and> (filter (\<lambda>r. Year r = Year s) df \<noteq> [] \<longrightarrow>
                 PrincipalSum s = sum_list (map PrincipalPaid (filter (\<lambda>r. Year r = Year s) df))
               \<and> PrepaymentSum s = sum_list (map Prepayment (filter (\<lambda>r. Year r = Year s) df))
               \<and> InterestSum s = sum_list (map InterestPaid (filter (\<lambda>r. Year r = Year s) df))
               \<and> FinalBalance s = max 0 (NewBalance (last (filter (\<lambda>r. Year r = Year s) df))))
            \<and> TotalPayment s = PrincipalSum s + InterestSum s + PrepaymentSum s)"
proof -
  let ?g = "\<lambda>y. with_total (if filter (\<lambda>r. Year r = y) df = []
                              then fillna0 (y, None) else group_row df y)"
  let ?ys = "map ?g [sy .. sy + t - 1]"
  have a: "aggregate_yearly df sy t = Inr ?ys" by (rule aggregate_yearly_rows)
  have l: "length ?ys = nat t" by simp
  have y: "map Year ?ys = [sy .. sy + t - 1]"
    by (rule map_Year_id) simp
  have p: "\<forall>s \<in> set ?ys.
              (filter (\<lambda>r. Year r = Year s) df = [] \<longrightarrow>
                 PrincipalSum s = 0 \<and> PrepaymentSum s = 0 \<and> InterestSum s = 0
                 \<and> FinalBalance s = 0)
            \<and> (filter (\<lambda>r. Year r = Year s) df \<noteq> [] \<longrightarrow>
                 PrincipalSum s = sum_list (map PrincipalPaid (filter (\<lambda>r. Year r = Year s) df))
               \<and> PrepaymentSum s = sum_list (map Prepayment (filter (\<lambda>r. Year r = Year s) df))
               \<and> InterestSum s = sum_list (map InterestPaid (filter (\<lambda>r. Year r = Year s) df))
               \<and> FinalBalance s = max 0 (NewBalance (last (filter (\<lambda>r. Year r = Year s) df))))
            \<and> TotalPayment s = PrincipalSum s + InterestSum s + PrepaymentSum s"
    by (auto simp: with_total_def group_row_def)
  from a l y p show ?thesis by blast
qed

theorem aggregate_yearly_summaries_witness:
  "map Year (projr (aggregate_yearly
      [month_row 0 100 700 0 2024 1200 1, month_row 0 100 700 0 2024 400 2] 2024 2)) = [2024, 2025]
   \<and> PrincipalSum (hd (projr (aggregate_yearly
      [month_row 0 100 700 0 2024 1200 1, month_row 0 100 700 0 2024 400 2] 2024 2))) = 200
   \<and> FinalBalance (last (projr (aggregate_yearly
      [month_row 0 100 700 0 2024 1200 1, month_row 0 100 700 0 2024 400 2] 2024 2))) = 0"
  using aggregate_yearly_summaries
          [of "[month_row 0 100 700 0 2024 1200 1, month_row 0 100 700 0 2024 400 2]" 2024 2]
  by (simp add: aggregate_yearly_rows with_total_def group_row_def upto_rec1)

section \<open>Concrete scenarios\<close>

text \<open>
  C7. For principal 100000 at 0% over 2 years without prepayments: the installment is
  \<open>100000 / 24\<close> (4166.67 to two decimals), the schedule has exactly 24 records, and the
  24th record closes at exactly 0.
\<close>

theorem zero_rate_two_years:
  "calculate_car_emi 100000 0 2 = Inr (100000 / 24)
   \<and> \<bar>100000 / 24 - 416667 / 100\<bar> \<le> (1 / 200 :: rat)
   \<and> (\<exists>rows. build_monthly_schedule 100000 0 2 0 0 sy = Inr rows
         \<and> length rows = 24 \<and> NewBalance (rows ! 23) = 0)"
  by (simp add: build_monthly_schedule_def calculate_car_emi_def schedule_loop_rows
        rows_from_step rows_from_stop next_balance_def prepay_amount_def)

lemma emi_450000: "calculate_car_emi 450000 9 5 = Inr (3375 * (403 / 400) ^ 60 / ((403 / 400) ^ 60 - 1))"
proof -
  have q: "(1::rat) < (403 / 400) ^ 60" by (rule one_less_power) simp_all
  have "(403 / 400 :: rat) ^ 60 \<noteq> 1"
    using order.strict_implies_not_eq [OF q] by (rule not_sym)
  then show ?thesis by (simp add: calculate_car_emi_def)
qed

lemma emi_bounds:
  "(9341255 / 1000 :: rat) < 3375 * (403 / 400) ^ 60 / ((403 / 400) ^ 60 - 1)
   \<and> 3375 * (403 / 400) ^ 60 / ((403 / 400) ^ 60 - 1) < (9341265 / 1000 :: rat)"
  by (simp add: power_divide)

text \<open>
  For principal 450000 at 9% over 5 years the annuity formula does not give 9332.36: the
  installment differs from that figure by more than 8.
\<close>

theorem installment_450000_counterexample:
  "\<not> (\<bar>projr (calculate_car_emi 450000 9 5) - 933236 / 100\<bar> \<le> 8)"
  using emi_bounds by (simp add: emi_450000 abs_le_iff)

text \<open>
  C8, amended. For principal 450000 at 9% over 5 years without prepayments: the first
  record's interest portion is \<open>450000 * 0.0075 = 3375\<close> exactly, and the installment
  given by the annuity formula is 9341.26 to two decimals.
\<close>

theorem first_interest_and_installment_450000:
  "(\<exists>rows. build_monthly_schedule 450000 9 5 0 0 sy = Inr rows \<and> rows \<noteq> []
       \<and> InterestPaid (hd rows) = 450000 * (75 / 10000) \<and> InterestPaid (hd rows) = 3375)
   \<and> (\<exists>emi. calculate_car_emi 450000 9 5 = Inr emi \<and> \<bar>emi - 934126 / 100\<bar> \<le> 1 / 200)"
proof -
  let ?emi = "3375 * (403 / 400) ^ 60 / ((403 / 400) ^ 60 - 1) :: rat"
  have "build_monthly_schedule 450000 9 5 0 0 sy =
          Inr (rows_from ((9 / 100) / 12) ?emi (5 * 12) 0 0 sy 450000 1)"
    using emi_450000 by (rule build_monthly_schedule_rows)
  moreover have "rows_from ((9 / 100) / 12) ?emi (5 * 12) 0 0 sy 450000 1 =
      month_row ((9 / 100) / 12) ?emi 0 0 sy 450000 1
      # rows_from ((9 / 100) / 12) ?emi (5 * 12) 0 0 sy
          (next_balance 450000 (?emi - 450000 * ((9 / 100) / 12)) (prepay_amount 0 0 1)) (1 + 1)"
    by (rule rows_from_step) simp_all
  ultimately have "\<exists>rows. build_monthly_schedule 450000 9 5 0 0 sy = Inr rows \<and> rows \<noteq> []
       \<and> InterestPaid (hd rows) = 450000 * (75 / 10000) \<and> InterestPaid (hd rows) = 3375"
    by simp
  moreover have "\<bar>?emi - 934126 / 100\<bar> \<le> 1 / 200"
    using emi_bounds unfolding abs_le_iff by linarith
  ultimately show ?thesis using emi_450000 by blast
qed

section \<open>Flows recorded in the payoff month\<close>

lemma rows_from_recorded_flows:
  "row \<in> set (rows_from r e tm mp qp sy b m) \<Longrightarrow>
     PrincipalPaid row = e - OldBalance row * r
     \<and> Prepayment row = prepay_amount mp qp (MonthNum row)"
  by (auto simp: in_set_conv_nth dest!: rows_from_nth)

lemma sched_overpaid:
  "build_monthly_schedule 1000 0 1 5000 0 2024 = Inr [month_row 0 (250 / 3) 5000 0 2024 1000 1]"
  by (simp add: build_monthly_schedule_def calculate_car_emi_def schedule_loop_rows
        rows_from_step rows_from_stop next_balance_def prepay_amount_def)

lemma yearly_overpaid:
  "aggregate_yearly [month_row 0 (250 / 3) 5000 0 2024 1000 1] 2024 1 =
     Inr [\<lparr> Year = 2024, PrincipalSum = 250 / 3, PrepaymentSum = 5000, InterestSum = 0,
            FinalBalance = 0, TotalPayment = 250 / 3 + 0 + 5000 \<rparr>]"
  by (simp add: aggregate_yearly_rows with_total_def group_row_def upto_rec1
        next_balance_def prepay_amount_def)

text \<open>
  C10. Every record holds the principal portion \<open>emi - openingBalance * r\<close> and the
  prepayment of its month at their computed values: only the balance is clamped. For
  principal 1000 at 0% over one year with a monthly prepayment of 5000, the single
  record closes at 0, its principal portion plus prepayment exceed its opening balance,
  their sum over the schedule exceeds the principal, and the yearly sums of
  \<open>aggregate_yearly\<close> carry the same total.
\<close>

theorem payoff_flows_not_clamped:
  "(\<forall>rows emi. calculate_car_emi p rate years = Inr emi
       \<and> build_monthly_schedule p rate years mp qp sy = Inr rows \<longrightarrow>
       (\<forall>row \<in> set rows. PrincipalPaid row = emi - OldBalance row * ((rate / 100) / 12)
                         \<and> Prepayment row = prepay_amount mp qp (MonthNum row)))
   \<and> (\<exists>rows yearly.
         build_monthly_schedule 1000 0 1 5000 0 2024 = Inr rows
       \<and> aggregate_yearly rows 2024 1 = Inr yearly
       \<and> NewBalance (last rows) = 0
       \<and> OldBalance (last rows) < PrincipalPaid (last rows) + Prepayment (last rows)
       \<and> 1000 < sum_list (map (\<lambda>row. PrincipalPaid row + Prepayment row) rows)
       \<and> sum_list (map (\<lambda>y. PrincipalSum y + PrepaymentSum y) yearly)
           = sum_list (map (\<lambda>row. PrincipalPaid row + Prepayment row) rows))"
proof -
  have g: "\<forall>rows emi. calculate_car_emi p rate years = Inr emi
       \<and> build_monthly_schedule p rate years mp qp sy = Inr rows \<longrightarrow>
       (\<forall>row \<in> set rows. PrincipalPaid row = emi - OldBalance row * ((rate / 100) / 12)
                         \<and> Prepayment row = prepay_amount mp qp (MonthNum row))"
  proof (intro allI impI ballI)
    fix rows emi row
    assume a: "calculate_car_emi p rate years = Inr emi
       \<and> build_monthly_schedule p rate years mp qp sy = Inr rows"
      and r: "row \<in> set rows"
    from a have "rows = rows_from ((rate / 100) / 12) emi (years * 12) mp qp sy p 1"
      using build_monthly_schedule_rows [of p rate years emi mp qp sy] by simp
    with r show "PrincipalPaid row = emi - OldBalance row * ((rate / 100) / 12)
                         \<and> Prepayment row = prepay_amount mp qp (MonthNum row)"
      using rows_from_recorded_flows by blast
  qed
  have c: "\<exists>rows yearly.
         build_monthly_schedule 1000 0 1 5000 0 2024 = Inr rows
       \<and> aggregate_yearly rows 2024 1 = Inr yearly
       \<and> NewBalance (last rows) = 0
       \<and> OldBalance (last rows) < PrincipalPaid (last rows) + Prepayment (last rows)
       \<and> 1000 < sum_list (map (\<lambda>row. PrincipalPaid row + Prepayment row) rows)
       \<and> sum_list (map (\<lambda>y. PrincipalSum y + PrepaymentSum y) yearly)
           = sum_list (map (\<lambda>row. PrincipalPaid row + Prepayment row) rows)"
    by (simp add: sched_overpaid yearly_overpaid next_balance_def prepay_amount_def)
  from g c show ?thesis by (rule conjI)
qed

theorem payoff_flows_not_clamped_witness:
  "PrincipalPaid (hd (projr (build_monthly_schedule 1000 0 1 5000 0 2024))) = 250 / 3 - 1000 * 0
   \<and> Prepayment (hd (projr (build_monthly_schedule 1000 0 1 5000 0 2024))) = 5000
   \<and> NewBalance (hd (projr (build_monthly_schedule 1000 0 1 5000 0 2024))) = 0"
  using payoff_flows_not_clamped [of 1000 0 1 5000 0 2024]
  by (simp add: sched_overpaid next_balance_def prepay_amount_def)

section \<open>Percentage of the loan paid\<close>

lemma length_cumsum_from [simp]: "length (cumsum_from a xs) = length xs"
  by (induction xs arbitrary: a) simp_all

lemma cumsum_from_nth:
  "i < length xs \<Longrightarrow> cumsum_from a xs ! i = a + sum_list (take (Suc i) xs)"
proof (induction xs arbitrary: a i)
  case Nil
  then show ?case by simp
next
  case (Cons x xs)
  show ?case
  proof (cases i)
    case 0
    then show ?thesis by simp
  next
    case (Suc j)
    with Cons.prems have "j < length xs" by simp
    from Cons.IH [OF this, of "a + x"] Suc show ?thesis by (simp add: add.assoc)
  qed
qed

lemma cumsum_nth: "i < length xs \<Longrightarrow> cumsum xs ! i = sum_list (take (Suc i) xs)"
  by (simp add: cumsum_def cumsum_from_nth)

lemma length_cumsum [simp]: "length (cumsum xs) = length xs"
  by (simp add: cumsum_def)

lemma length_pct_loan_paid [simp]: "length (pct_loan_paid init df) = length df"
  by (simp add: pct_loan_paid_def Let_def)

lemma pct_loan_paid_nth:
  assumes "i < length df"
  shows "pct_loan_paid init df ! i =
           (if FinalBalance (df ! i) \<le> 0 then 100
            else if 0 < init
              then min ((sum_list (map (\<lambda>r. PrincipalSum r + PrepaymentSum r) (take (Suc i) df))
                         / init) * 100) 100
              else 100)"
proof -
  have c: "map2 (+) (cumsum (map PrincipalSum df)) (cumsum (map PrepaymentSum df)) ! i =
             sum_list (map (\<lambda>r. PrincipalSum r + PrepaymentSum r) (take (Suc i) df))"
    using assms by (simp add: cumsum_nth take_map sum_list_addf)
  show ?thesis
    using assms c by (simp add: pct_loan_paid_def Let_def)
qed

text \<open>A loan of 2400 at 0% over two years, without prepayments.\<close>

lemma sched_two_years:
  "build_monthly_schedule 2400 0 2 0 0 2024 =
     Inr (map (\<lambda>k. month_row 0 100 0 0 2024 (2400 - 100 * of_int k) (k + 1)) [0 .. 23])"
  by (simp add: build_monthly_schedule_def calculate_car_emi_def schedule_loop_rows
        rows_from_step rows_from_stop next_balance_def prepay_amount_def upto_rec1)

lemma yearly_two_years:
  "aggregate_yearly (map (\<lambda>k. month_row 0 100 0 0 2024 (2400 - 100 * of_int k) (k + 1)) [0 .. 23])
     2024 2 =
     Inr [\<lparr> Year = 2024, PrincipalSum = 1200, PrepaymentSum = 0, InterestSum = 0,
            FinalBalance = 1200, TotalPayment = 1200 \<rparr>,
          \<lparr> Year = 2025, PrincipalSum = 1200, PrepaymentSum = 0, InterestSum = 0,
            FinalBalance = 0, TotalPayment = 1200 \<rparr>]"
  by (simp add: aggregate_yearly_rows with_total_def group_row_def upto_rec1
        next_balance_def prepay_amount_def)

lemma main_two_years:
  "main_yearly 2400 0 0 2 0 2024 0 0 0 =
     Inr ([\<lparr> Year = 2024, PrincipalSum = 1200, PrepaymentSum = 0, InterestSum = 0,
             FinalBalance = 1200, TotalPayment = 1200 \<rparr>,
           \<lparr> Year = 2025, PrincipalSum = 1200, PrepaymentSum = 0, InterestSum = 0,
             FinalBalance = 0, TotalPayment = 1200 \<rparr>], [50, 100])"
  by (simp add: main_yearly_def effective_principal_def principal_before_one_time_def
        sched_two_years yearly_two_years pct_loan_paid_def cumsum_def)

text \<open>
  C5. For every yearly series the percentage of a year whose final balance is positive
  is the running sum of \<open>PrincipalSum + PrepaymentSum\<close> over the years up to it, divided
  by the initial principal, times 100, clamped at 100; it is 100 for every year when the
  initial principal is 0 (or negative); and a year whose final balance is \<open>\<le> 0\<close> has
  exactly 100. In \<open>main\<close> the initial principal is the principal before the one-time
  prepayment is deducted.
\<close>

theorem percent_loan_paid_value:
  "length (pct_loan_paid init df) = length df
   \<and> (\<forall>i < length df.
         (0 < FinalBalance (df ! i) \<and> 0 < init \<longrightarrow>
            pct_loan_paid init df ! i =
              min ((sum_list (map (\<lambda>r. PrincipalSum r + PrepaymentSum r) (take (Suc i) df))
                    / init) * 100) 100)
       \<and> (init \<le> 0 \<longrightarrow> pct_loan_paid init df ! i = 100)
       \<and> (FinalBalance (df ! i) \<le> 0 \<longrightarrow> pct_loan_paid init df ! i = 100))
   \<and> (main_yearly cp dp rate years fees sy mp qp ot = Inr (yearly, pct) \<longrightarrow>
         pct = pct_loan_paid (of_int cp - of_int (cp * dp) / 100 - of_int fees) yearly)"
proof -
  have "main_yearly cp dp rate years fees sy mp qp ot = Inr (yearly, pct) \<longrightarrow>
         pct = pct_loan_paid (of_int cp - of_int (cp * dp) / 100 - of_int fees) yearly"
    by (auto simp: main_yearly_def principal_before_one_time_def Let_def split: sum.splits)
  then show ?thesis
    by (simp add: pct_loan_paid_nth)
qed

theorem percent_loan_paid_value_witness:
  "pct_loan_paid 2400
     [\<lparr> Year = 2024, PrincipalSum = 1200, PrepaymentSum = 0, InterestSum = 0,
        FinalBalance = 1200, TotalPayment = 1200 \<rparr>,
      \<lparr> Year = 2025, PrincipalSum = 1200, PrepaymentSum = 0, InterestSum = 0,
        FinalBalance = 0, TotalPayment = 1200 \<rparr>] ! 0 = min ((1200 / 2400) * 100) 100
   \<and> pct_loan_paid 2400
     [\<lparr> Year = 2024, PrincipalSum = 1200, PrepaymentSum = 0, InterestSum = 0,
        FinalBalance = 1200, TotalPayment = 1200 \<rparr>,
      \<lparr> Year = 2025, PrincipalSum = 1200, PrepaymentSum = 0, InterestSum = 0,
        FinalBalance = 0, TotalPayment = 1200 \<rparr>] ! 1 = 100
   \<and> pct_loan_paid 0
     [\<lparr> Year = 2024, PrincipalSum = 1200, PrepaymentSum = 0, InterestSum = 0,
        FinalBalance = 1200, TotalPayment = 1200 \<rparr>,
      \<lparr> Year = 2025, PrincipalSum = 1200, PrepaymentSum = 0, InterestSum = 0,
        FinalBalance = 0, TotalPayment = 1200 \<rparr>] ! 0 = 100
   \<and> snd (projr (main_yearly 2400 0 0 2 0 2024 0 0 0))
       = pct_loan_paid 2400 (fst (projr (main_yearly 2400 0 0 2 0 2024 0 0 0)))"
  using percent_loan_paid_value
          [where init = 2400 and cp = 2400 and dp = 0 and rate = 0 and years = 2 and fees = 0
             and sy = 2024 and mp = 0 and qp = 0 and ot = 0 and pct = "[50, 100]"
             and df = "[\<lparr> Year = 2024, PrincipalSum = 1200, PrepaymentSum = 0, InterestSum = 0,
        FinalBalance = 1200, TotalPayment = 1200 \<rparr>,
      \<lparr> Year = 2025, PrincipalSum = 1200, PrepaymentSum = 0, InterestSum = 0,
        FinalBalance = 0, TotalPayment = 1200 \<rparr>]"
             and yearly = "[\<lparr> Year = 2024, PrincipalSum = 1200, PrepaymentSum = 0, InterestSum = 0,
        FinalBalance = 1200, TotalPayment = 1200 \<rparr>,
      \<lparr> Year = 2025, PrincipalSum = 1200, PrepaymentSum = 0, InterestSum = 0,
        FinalBalance = 0, TotalPayment = 1200 \<rparr>]"]
        percent_loan_paid_value
          [where init = 0 and cp = 2400 and dp = 0 and rate = 0 and years = 2 and fees = 0
             and sy = 2024 and mp = 0 and qp = 0 and ot = 0 and pct = "[50, 100]"
             and df = "[\<lparr> Year = 2024, PrincipalSum = 1200, PrepaymentSum = 0, InterestSum = 0,
        FinalBalance = 1200, TotalPayment = 1200 \<rparr>,
      \<lparr> Year = 2025, PrincipalSum = 1200, PrepaymentSum = 0, InterestSum = 0,
        FinalBalance = 0, TotalPayment = 1200 \<rparr>]"
             and yearly = "[\<lparr> Year = 2024, PrincipalSum = 1200, PrepaymentSum = 0, InterestSum = 0,
        FinalBalance = 1200, TotalPayment = 1200 \<rparr>,
      \<lparr> Year = 2025, PrincipalSum = 1200, PrepaymentSum = 0, InterestSum = 0,
        FinalBalance = 0, TotalPayment = 1200 \<rparr>]"]
  by (simp add: main_two_years)

section \<open>Rounding to double precision\<close>

text \<open>
  The binary exponent is characterised by its bounds, rounding is monotone, and a
  rounded value is a double (rounding it again changes nothing).
\<close>

lemma bit_length_0: "bit_length 0 = 0"
  by (simp add: bit_length.simps)

lemma bit_length_pos: "n \<noteq> 0 \<Longrightarrow> bit_length n = Suc (bit_length (n div 2))"
  by (subst bit_length.simps) simp

lemma bit_length_bounds:
  "0 < n \<Longrightarrow> 2 ^ (bit_length n - 1) \<le> n \<and> n < 2 ^ bit_length n"
proof (induction n rule: bit_length.induct)
  case (1 n)
  show ?case
  proof (cases "n div 2 = 0")
    case True
    with "1.prems" have "n = 1" by (simp add: div_eq_0_iff) 
    then show ?thesis by (simp add: bit_length_pos bit_length_0)
  next
    case False
    then have pos: "0 < n div 2" by simp
    from "1.prems" have n0: "n \<noteq> 0" by simp
    from "1.IH" [OF n0 pos] have lo: "2 ^ (bit_length (n div 2) - 1) \<le> n div 2"
      and hi: "n div 2 < 2 ^ bit_length (n div 2)" by simp_all
    have bl: "bit_length n = Suc (bit_length (n div 2))"
      using n0 by (subst bit_length.simps) simp
    have bpos: "0 < bit_length (n div 2)"
      using pos by (subst bit_length.simps) simp
    have "2 ^ (bit_length n - 1) = 2 * 2 ^ (bit_length (n div 2) - 1)"
      using bpos by (simp add: bl power_eq_if)
    also have "\<dots> \<le> 2 * (n div 2)" using lo by simp
    also have "\<dots> \<le> n" by simp
    finally have a: "2 ^ (bit_length n - 1) \<le> n" .
    have "n < 2 * (n div 2) + 2" by presburger
    also have "\<dots> \<le> 2 * 2 ^ bit_length (n div 2)" using hi by simp
    finally have b: "n < 2 ^ bit_length n" by (simp add: bl)
    from a b show ?thesis ..
  qed
qed


lemma ilog2_bounds:
  assumes "0 < x"
  shows "2 powi ilog2 x \<le> x \<and> x < 2 powi (ilog2 x + 1)"
proof (cases "1 \<le> x")
  case True
  define n where "n = nat \<lfloor>x\<rfloor>"
  define k where "k = bit_length n"
  from True have fl: "1 \<le> \<lfloor>x\<rfloor>" by simp
  then have n: "0 < n" and nx: "of_nat n \<le> x"
    by (simp_all add: n_def)
  have xn: "x < of_nat n + 1"
    using fl floor_correct [of x] by (simp add: n_def)
  from bit_length_bounds [OF n] have lo: "2 ^ (k - 1) \<le> n" and hi: "n < 2 ^ k"
    by (simp_all add: k_def)
  from hi n have k: "0 < k" by (cases k) simp_all
  have e: "ilog2 x = int (k - 1)" using True k by (simp add: ilog2_def n_def k_def)
  have r1: "(2::rat) ^ (k - 1) \<le> of_nat n"
    using of_nat_mono [OF lo, where ?'a = rat] by simp
  have "2 powi ilog2 x = (2::rat) ^ (k - 1)" by (simp only: e power_int_of_nat)
  with order_trans [OF r1 nx] have a: "2 powi ilog2 x \<le> x" by (simp only:)
  from hi have "n + 1 \<le> 2 ^ k" by simp
  then have r2: "(of_nat n :: rat) + 1 \<le> 2 ^ k"
    using of_nat_mono [OF \<open>n + 1 \<le> 2 ^ k\<close>, where ?'a = rat] by simp
  have xk: "x < 2 ^ k" by (rule less_le_trans [OF xn r2])
  have "ilog2 x + 1 = int k" using k by (simp add: e)
  then have "2 powi (ilog2 x + 1) = (2::rat) ^ k" by (simp only: power_int_of_nat)
  with xk have b: "x < 2 powi (ilog2 x + 1)" by (simp only:)
  from a b show ?thesis ..
next
  case False
  define y where "y = 1 / x"
  define n where "n = nat (\<lceil>y\<rceil> - 1)"
  define k where "k = bit_length n"
  from False assms have y1: "1 < y" by (simp add: y_def)
  then have c: "2 \<le> \<lceil>y\<rceil>" by (simp add: le_ceiling_iff)
  then have n: "0 < n" by (simp add: n_def)
  have ny: "of_nat n < y" using c by (simp add: n_def) linarith
  have yn: "y \<le> of_nat n + 1" using c by (simp add: n_def)
  from bit_length_bounds [OF n] have lo: "2 ^ (k - 1) \<le> n" and hi: "n < 2 ^ k"
    by (simp_all add: k_def)
  from hi n have k: "0 < k" by (cases k) simp_all
  have e: "ilog2 x = - int k" using False by (simp add: ilog2_def n_def k_def y_def)
  from hi have "n + 1 \<le> 2 ^ k" by simp
  then have r2: "(of_nat n :: rat) + 1 \<le> 2 ^ k"
    using of_nat_mono [OF \<open>n + 1 \<le> 2 ^ k\<close>, where ?'a = rat] by simp
  have yk: "y \<le> 2 ^ k" by (rule order_trans [OF yn r2])
  then have xk: "1 / 2 ^ k \<le> x" using assms by (simp add: y_def field_simps)
  have "2 powi ilog2 x = 1 / (2::rat) ^ k"
    by (simp only: e power_int_minus power_int_of_nat inverse_eq_divide)
  with xk have a: "2 powi ilog2 x \<le> x" by (simp only:)
  have r1: "(2::rat) ^ (k - 1) \<le> of_nat n"
    using of_nat_mono [OF lo, where ?'a = rat] by simp
  have "2 ^ (k - 1) < y" by (rule le_less_trans [OF r1 ny])
  then have xk': "x < 1 / 2 ^ (k - 1)" using assms by (simp add: y_def field_simps)
  have "ilog2 x + 1 = - int (k - 1)" using k by (simp add: e)
  then have "2 powi (ilog2 x + 1) = 1 / (2::rat) ^ (k - 1)"
    by (simp only: power_int_minus power_int_of_nat inverse_eq_divide)
  with xk' have b: "x < 2 powi (ilog2 x + 1)" by (simp only:)
  from a b show ?thesis ..
qed

lemma ilog2_unique:
  assumes "2 powi e \<le> x" and "x < 2 powi (e + 1)"
  shows "ilog2 x = e"
proof -
  have pos: "0 < x" using assms(1) by (rule less_le_trans [rotated]) simp
  from ilog2_bounds [OF pos] have lo: "2 powi ilog2 x \<le> x" and hi: "x < 2 powi (ilog2 x + 1)"
    by simp_all
  have "\<not> ilog2 x < e"
  proof
    assume "ilog2 x < e"
    then have "(2::rat) powi (ilog2 x + 1) \<le> 2 powi e" by (intro power_int_increasing) simp_all
    with hi assms(1) show False by simp
  qed
  moreover have "\<not> e < ilog2 x"
  proof
    assume "e < ilog2 x"
    then have "(2::rat) powi (e + 1) \<le> 2 powi ilog2 x" by (intro power_int_increasing) simp_all
    with lo assms(2) show False by simp
  qed
  ultimately show ?thesis by simp
qed


lemma round_half_even_cases:
  "round_half_even m = \<lfloor>m\<rfloor> \<or> round_half_even m = \<lfloor>m\<rfloor> + 1"
  by (simp add: round_half_even_def Let_def)

lemma round_half_even_eqI:
  assumes "2 * \<bar>m - of_int n\<bar> < 1 \<or> (2 * \<bar>m - of_int n\<bar> = 1 \<and> even n)"
  shows "round_half_even m = n"
proof (cases "of_int n \<le> m")
  case True
  with assms have "m < of_int n + 1" by (auto simp: abs_if split: if_splits)
  with True have f: "\<lfloor>m\<rfloor> = n" by (simp add: floor_unique)
  from assms True have "m - of_int n < 1 / 2 \<or> (m - of_int n = 1 / 2 \<and> even n)"
    by (auto simp: abs_if split: if_splits)
  then show ?thesis by (auto simp: round_half_even_def Let_def f)
next
  case False
  with assms have "of_int (n - 1) \<le> m" "m < of_int (n - 1) + 1"
    by (auto simp: abs_if split: if_splits)
  then have f: "\<lfloor>m\<rfloor> = n - 1" by (rule floor_unique)
  from assms False have "1 / 2 < m - of_int (n - 1) \<or> (m - of_int (n - 1) = 1 / 2 \<and> even n)"
    by (auto simp: abs_if split: if_splits)
  then show ?thesis by (auto simp: round_half_even_def Let_def f)
qed

lemma round_half_even_of_int [simp]: "round_half_even (of_int n) = n"
  by (rule round_half_even_eqI) simp

lemma round_half_even_ge:
  assumes "of_int k \<le> m"
  shows "k \<le> round_half_even m"
proof -
  from assms have "k \<le> \<lfloor>m\<rfloor>" by (simp add: le_floor_iff)
  with round_half_even_cases [of m] show ?thesis by auto
qed

lemma round_half_even_le:
  assumes "m \<le> of_int k"
  shows "round_half_even m \<le> k"
proof (cases "m = of_int k")
  case True
  then show ?thesis by simp
next
  case False
  with assms have "m < of_int k" by simp
  then have "\<lfloor>m\<rfloor> < k" by (simp add: floor_less_iff)
  with round_half_even_cases [of m] show ?thesis by auto
qed

lemma round_half_even_mono:
  assumes "m \<le> m'"
  shows "round_half_even m \<le> round_half_even m'"
proof (cases "\<lfloor>m\<rfloor> = \<lfloor>m'\<rfloor>")
  case True
  with assms show ?thesis by (auto simp: round_half_even_def Let_def)
next
  case False
  with assms have "\<lfloor>m\<rfloor> + 1 \<le> \<lfloor>m'\<rfloor>" using floor_mono [OF assms] by simp
  moreover have "round_half_even m \<le> \<lfloor>m\<rfloor> + 1" using round_half_even_cases [of m] by auto
  moreover have "\<lfloor>m'\<rfloor> \<le> round_half_even m'" using round_half_even_cases [of m'] by auto
  ultimately show ?thesis by simp
qed

lemma ulp_exp_eqI:
  "2 powi e \<le> x \<Longrightarrow> x < 2 powi (e + 1) \<Longrightarrow> ulp_exp x = max (e - 52) (- 1074)"
  by (simp add: ulp_exp_def ilog2_unique)

lemma round_val_eqI:
  assumes "2 powi e \<le> x" and "x < 2 powi (e + 1)"
    and "2 * \<bar>x / 2 powi max (e - 52) (- 1074) - of_int n\<bar> < 1
         \<or> (2 * \<bar>x / 2 powi max (e - 52) (- 1074) - of_int n\<bar> = 1 \<and> even n)"
  shows "round_val x = of_int n * 2 powi max (e - 52) (- 1074)"
  unfolding round_val_def ulp_exp_eqI [OF assms(1,2)]
  using round_half_even_eqI [OF assms(3)] by simp

lemma rnd_eqI:
  assumes "2 powi e \<le> x" and "x < 2 powi (e + 1)"
    and "2 * \<bar>x / 2 powi max (e - 52) (- 1074) - of_int n\<bar> < 1
         \<or> (2 * \<bar>x / 2 powi max (e - 52) (- 1074) - of_int n\<bar> = 1 \<and> even n)"
    and "v = of_int n * 2 powi max (e - 52) (- 1074)" and "v < 2 ^ 1024"
  shows "rnd x = Fin v"
proof -
  have pos: "0 < x" using assms(1) by (rule less_le_trans [rotated]) simp
  from round_val_eqI [OF assms(1-3)] assms(4,5) pos show ?thesis
    by (simp add: rnd_def)
qed


lemma pow2_add: "(2::rat) powi (a + b) = 2 powi a * 2 powi b"
  by (simp add: power_int_add)

lemma pow2_nat: "0 \<le> k \<Longrightarrow> (2::rat) powi k = of_int (2 ^ nat k)"
  by (simp add: power_int_def)

lemma round_val_nonneg:
  assumes "0 \<le> x"
  shows "0 \<le> round_val x"
proof -
  have "of_int 0 \<le> x / 2 powi ulp_exp x" using assms by simp
  then have "0 \<le> round_half_even (x / 2 powi ulp_exp x)" by (rule round_half_even_ge)
  then show ?thesis by (simp add: round_val_def)
qed

lemma round_val_mono:
  assumes "0 < x" and "x \<le> y"
  shows "round_val x \<le> round_val y"
proof -
  define e where "e = ilog2 x"
  define f where "f = ilog2 y"
  define p where "p = ulp_exp x"
  define q where "q = ulp_exp y"
  have y: "0 < y" using assms by simp
  from ilog2_bounds [OF assms(1)] have xe: "2 powi e \<le> x" "x < 2 powi (e + 1)"
    by (simp_all add: e_def)
  from ilog2_bounds [OF y] have yf: "2 powi f \<le> y" "y < 2 powi (f + 1)"
    by (simp_all add: f_def)
  have ef: "e \<le> f"
  proof (rule ccontr)
    assume "\<not> e \<le> f"
    then have "f + 1 \<le> e" by simp
    then have "(2::rat) powi (f + 1) \<le> 2 powi e" by (intro power_int_increasing) simp_all
    with xe(1) yf(2) assms(2) show False by simp
  qed
  have pd: "p = max (e - 52) (- 1074)" and qd: "q = max (f - 52) (- 1074)"
    by (simp_all add: p_def q_def ulp_exp_def e_def f_def)
  have pq: "p \<le> q" using ef by (simp add: pd qd)
  have P: "0 < (2::rat) powi p" and Q: "0 < (2::rat) powi q" by simp_all
  have rx: "round_val x = of_int (round_half_even (x / 2 powi p)) * 2 powi p"
    by (simp add: round_val_def p_def)
  have ry: "round_val y = of_int (round_half_even (y / 2 powi q)) * 2 powi q"
    by (simp add: round_val_def q_def)
  show ?thesis
  proof (cases "p = q")
    case True
    have "x / 2 powi p \<le> y / 2 powi p" using assms(2) P by (simp add: divide_right_mono)
    then have "round_half_even (x / 2 powi p) \<le> round_half_even (y / 2 powi p)"
      by (rule round_half_even_mono)
    then have "(of_int (round_half_even (x / 2 powi p)) :: rat)
               \<le> of_int (round_half_even (y / 2 powi p))" by simp
    then have "of_int (round_half_even (x / 2 powi p)) * 2 powi p
               \<le> of_int (round_half_even (y / 2 powi p)) * (2::rat) powi p"
      using P by (intro mult_right_mono) simp_all
    then show ?thesis by (simp only: rx ry True)
  next
    case False
    with pq have lt: "p < q" by simp
    have q52: "f = q + 52" using lt by (simp add: pd qd max_def split: if_splits)
    have fp: "0 \<le> f - p" using lt q52 by simp
    have "2 powi f = 2 powi q * (2::rat) powi 52" by (simp only: q52 pow2_add)
    with yf(1) have "2 powi q * 2 powi 52 \<le> y" by simp
    then have "(2::rat) powi 52 \<le> y / 2 powi q" using Q by (simp add: field_simps)
    then have "of_int (2 ^ 52) \<le> y / 2 powi q" by simp
    then have "2 ^ 52 \<le> round_half_even (y / 2 powi q)" by (rule round_half_even_ge)
    then have "(of_int (2 ^ 52) :: rat) \<le> of_int (round_half_even (y / 2 powi q))"
      by (simp only: of_int_le_iff)
    then have "of_int (2 ^ 52) * 2 powi q \<le> of_int (round_half_even (y / 2 powi q)) * (2::rat) powi q"
      using Q by (intro mult_right_mono) simp_all
    moreover have "of_int (2 ^ 52) * 2 powi q = (2::rat) powi f"
      by (simp add: q52 pow2_add)
    ultimately have ly: "2 powi f \<le> round_val y" by (simp only: ry)
    have "e + 1 \<le> f" using lt q52 pd by simp
    then have "(2::rat) powi (e + 1) \<le> 2 powi f" by (intro power_int_increasing) simp_all
    with xe(2) have xf: "x \<le> 2 powi f" by simp
    have "(2::rat) powi f = 2 powi (f - p) * 2 powi p"
      using pow2_add [of "f - p" p] by simp
    with xf have "x \<le> 2 powi (f - p) * 2 powi p" by simp
    then have "x / 2 powi p \<le> 2 powi (f - p)" using P by (simp add: field_simps)
    then have "x / 2 powi p \<le> of_int (2 ^ nat (f - p))" by (simp only: pow2_nat [OF fp])
    then have "round_half_even (x / 2 powi p) \<le> 2 ^ nat (f - p)" by (rule round_half_even_le)
    then have "(of_int (round_half_even (x / 2 powi p)) :: rat) \<le> of_int (2 ^ nat (f - p))"
      by (simp only: of_int_le_iff)
    then have "of_int (round_half_even (x / 2 powi p)) * 2 powi p
               \<le> of_int (2 ^ nat (f - p)) * (2::rat) powi p"
      using P by (intro mult_right_mono) simp_all
    moreover have "of_int (2 ^ nat (f - p)) * 2 powi p = (2::rat) powi f"
      using pow2_add [of "f - p" p] by (simp add: pow2_nat [OF fp])
    ultimately have ux: "round_val x \<le> 2 powi f" by (simp only: rx)
    from ux ly show ?thesis by (rule order_trans)
  qed
qed


lemma round_val_fix:
  assumes n: "1 \<le> n" "n \<le> 2 ^ 53" and p: "- 1074 \<le> p" and v: "v = of_int n * 2 powi p"
  shows "round_val v = v"
proof -
  have vpos: "0 < v" using n(1) by (simp add: v)
  define p' where "p' = ulp_exp v"
  from ilog2_bounds [OF vpos] have lo: "2 powi ilog2 v \<le> v" and hi: "v < 2 powi (ilog2 v + 1)"
    by simp_all
  have "\<exists>k::int. v = of_int k * 2 powi p'"
  proof (cases "n = 2 ^ 53")
    case True
    have v2: "v = 2 powi (p + 53)" by (simp add: v True pow2_add)
    have "ilog2 v = p + 53"
    proof (rule ilog2_unique)
      show "2 powi (p + 53) \<le> v" by (simp add: v2)
      have "(2::rat) powi (p + 53) < 2 powi (p + 53 + 1)"
        by (intro power_int_strict_increasing) simp_all
      then show "v < 2 powi (p + 53 + 1)" by (simp only: v2)
    qed
    then have "p' = p + 1" using p by (simp add: p'_def ulp_exp_def)
    then have "v = of_int (2 ^ 52) * 2 powi p'"
      using pow2_add [of "p + 1" 52] by (simp add: v2 add.commute)
    then show ?thesis ..
  next
    case False
    with n(2) have "n < 2 ^ 53" by simp
    then have "(of_int n :: rat) < of_int (2 ^ 53)" by (simp only: of_int_less_iff)
    then have "(of_int n :: rat) < 2 powi 53" by simp
    then have "of_int n * 2 powi p < 2 powi 53 * (2::rat) powi p"
      by (intro mult_strict_right_mono) simp_all
    then have "v < 2 powi (p + 53)" by (simp add: v pow2_add mult.commute)
    with lo have l: "2 powi ilog2 v < (2::rat) powi (p + 53)" by simp
    have "ilog2 v < p + 53"
    proof (rule ccontr)
      assume "\<not> ilog2 v < p + 53"
      then have "(2::rat) powi (p + 53) \<le> 2 powi ilog2 v"
        by (intro power_int_increasing) simp_all
      with l show False by simp
    qed
    then have pp: "p' \<le> p" using p by (simp add: p'_def ulp_exp_def)
    then have d: "0 \<le> p - p'" by simp
    have "(2::rat) powi p = 2 powi (p - p') * 2 powi p'"
      using pow2_add [of "p - p'" p'] by simp
    then have "v = of_int (n * 2 ^ nat (p - p')) * 2 powi p'"
      by (simp add: v pow2_nat [OF d])
    then show ?thesis ..
  qed
  then obtain k :: int where k: "v = of_int k * 2 powi p'" ..
  have "v / 2 powi p' = of_int k" by (simp add: k)
  then have "round_half_even (v / 2 powi p') = k" by simp
  then show ?thesis by (simp add: round_val_def p'_def [symmetric] k [symmetric])
qed

lemma round_half_even_bound:
  assumes "0 < x"
  shows "round_half_even (x / 2 powi ulp_exp x) \<le> 2 ^ 53"
proof -
  define p where "p = ulp_exp x"
  from ilog2_bounds [OF assms] have hi: "x < 2 powi (ilog2 x + 1)" by simp
  have "ilog2 x + 1 \<le> p + 53" by (simp add: p_def ulp_exp_def)
  then have "(2::rat) powi (ilog2 x + 1) \<le> 2 powi (p + 53)"
    by (intro power_int_increasing) simp_all
  with hi have "x \<le> 2 powi 53 * 2 powi p" by (simp add: pow2_add mult.commute)
  then have "x / 2 powi p \<le> 2 powi 53" by (simp add: field_simps)
  then have "x / 2 powi p \<le> of_int (2 ^ 53)" by simp
  then show ?thesis unfolding p_def by (rule round_half_even_le)
qed

lemma round_val_idem:
  assumes "0 < x"
  shows "round_val x = 0 \<or> (0 < round_val x \<and> round_val (round_val x) = round_val x)"
proof -
  define n where "n = round_half_even (x / 2 powi ulp_exp x)"
  have v: "round_val x = of_int n * 2 powi ulp_exp x" by (simp add: round_val_def n_def)
  have n0: "0 \<le> n" unfolding n_def by (rule round_half_even_ge) (use assms in simp)
  show ?thesis
  proof (cases "n = 0")
    case True
    then show ?thesis by (simp add: v)
  next
    case False
    with n0 have n1: "1 \<le> n" by simp
    have "n \<le> 2 ^ 53" unfolding n_def by (rule round_half_even_bound [OF assms])
    moreover have "- 1074 \<le> ulp_exp x" by (simp add: ulp_exp_def)
    ultimately have "round_val (round_val x) = round_val x"
      using n1 v by (intro round_val_fix [where n = n and p = "ulp_exp x"])
    moreover have "0 < round_val x" using n1 by (simp add: v)
    ultimately show ?thesis by simp
  qed
qed

lemma rnd_idem:
  assumes "rnd x = Fin v"
  shows "rnd v = Fin v"
proof -
  consider "x = 0" | "0 < x" | "x < 0" by linarith
  then show ?thesis
  proof cases
    case 1
    with assms show ?thesis by (simp add: rnd_def)
  next
    case 2
    with assms have v: "v = round_val x" and b: "round_val x < 2 ^ 1024"
      by (auto simp: rnd_def split: if_splits)
    from round_val_idem [OF 2] show ?thesis
      using b by (auto simp: rnd_def v)
  next
    case 3
    then have pos: "0 < - x" by simp
    from 3 assms have v: "v = - round_val (- x)" and b: "round_val (- x) < 2 ^ 1024"
      by (auto simp: rnd_def split: if_splits)
    from round_val_idem [OF pos] show ?thesis
      using b by (auto simp: rnd_def v)
  qed
qed

lemma rnd_mono:
  assumes "x \<le> y"
  shows "f_le (rnd x) (rnd y)"
proof -
  have nn: "0 \<le> round_val z" if "0 < z" for z using that by (intro round_val_nonneg) simp
  consider "0 < x" | "x \<le> 0" "0 \<le> y" | "y < 0" using assms by linarith
  then show ?thesis
  proof cases
    case 1
    with assms have y: "0 < y" by simp
    from round_val_mono [OF 1 assms] 1 y show ?thesis
      by (auto simp: rnd_def f_le_def)
  next
    case 2
    then show ?thesis
      using nn [of y] nn [of "- x"] by (auto simp: rnd_def f_le_def)
  next
    case 3
    with assms have "0 < - y" "- y \<le> - x" "x < 0" by simp_all
    from round_val_mono [OF this(1,2)] 3 this(3) show ?thesis
      by (auto simp: rnd_def f_le_def)
  qed
qed

lemma rnd_0 [simp]: "rnd 0 = Fin 0"
  by (simp add: rnd_def)


lemma rnd_overflow:
  assumes "2 ^ 1024 \<le> x"
  shows "rnd x = PInf"
proof -
  have pos: "(0::rat) < 2 ^ 1024" by simp
  have "round_val (2 ^ 1024) = (2 ^ 1024 :: rat)"
    by (rule round_val_fix [where n = "2 ^ 52" and p = 972]) (simp_all add: power_int_def)
  with round_val_mono [OF pos assms] have "2 ^ 1024 \<le> round_val x" by simp
  moreover from pos assms have "0 < x" by (rule less_le_trans)
  ultimately show ?thesis by (simp add: rnd_def)
qed

lemma rnd_of_int:
  assumes "1 \<le> k" and "k \<le> 2 ^ 53"
  shows "rnd (of_int k) = Fin (of_int k)"
proof -
  have "round_val (of_int k) = of_int k"
    by (rule round_val_fix [where n = k and p = 0]) (use assms in simp_all)
  moreover have "(of_int k :: rat) \<le> of_int (2 ^ 53)" using assms(2) by (simp only: of_int_le_iff)
  then have "(of_int k :: rat) < 2 ^ 1024" by simp
  moreover have "(0::rat) < of_int k" using assms(1) by simp
  ultimately show ?thesis by (simp add: rnd_def)
qed


lemma rnd_1 [simp]: "rnd 1 = Fin 1"
  using rnd_of_int [of 1] by simp

section \<open>The installment in double precision\<close>

text \<open>
  The roundings met when the installment is evaluated at an annual rate of
  \<^verbatim>\<open>1e-13\<close> and at an annual rate of 1200000.
\<close>

lemma rnd_tiny_1: "rnd (845100400152153 / 10141204801825835211973625643008) = Fin (845100400152153 / 10141204801825835211973625643008)"
  by (rule rnd_eqI [where e = "-54" and n = 6760803201217224]) simp_all

lemma rnd_tiny_2: "rnd (3961408125713217 / 3961408125713216879677197516800) = Fin (2535301200456459 / 2535301200456458802993406410752)"
  by (rule rnd_eqI [where e = "-50" and n = 5070602400912918]) simp_all

lemma rnd_tiny_3: "rnd (6602346876188695 / 79228162514264337593543950336) = Fin (6602346876188695 / 79228162514264337593543950336)"
  by (rule rnd_eqI [where e = "-44" and n = 6602346876188695]) simp_all

lemma rnd_tiny_4: "rnd (105637550019019125 / 1267650600228229401496703205376) = Fin (6602346876188695 / 79228162514264337593543950336)"
  by (rule rnd_eqI [where e = "-44" and n = 6602346876188695]) simp_all

lemma rnd_tiny_5: "rnd (1 / 10000000000000) = Fin (3961408125713217 / 39614081257132168796771975168)"
  by (rule rnd_eqI [where e = "-44" and n = 7922816251426434]) simp_all

lemma rnd_tiny_6: "rnd (1) = Fin (1)"
  by (rule rnd_eqI [where e = "0" and n = 4503599627370496]) simp_all

lemma rnd_tiny_7: "rnd (10141204801825836057074025795161 / 10141204801825835211973625643008) = Fin (1)"
  by (rule rnd_eqI [where e = "0" and n = 4503599627370496]) simp_all

lemma rnd_tiny_8: "rnd (12) = Fin (12)"
  by (rule rnd_eqI [where e = "3" and n = 6755399441055744]) simp_all

lemma rnd_tiny_9: "rnd (108) = Fin (108)"
  by (rule rnd_eqI [where e = "6" and n = 7599824371187712]) simp_all

lemma rnd_tiny_10: "rnd (1000) = Fin (1000)"
  by (rule rnd_eqI [where e = "9" and n = 8796093022208000]) simp_all

lemma rnd_tiny_11: "rnd (1001) = Fin (1001)"
  by (rule rnd_eqI [where e = "9" and n = 8804889115230208]) simp_all

lemma rnd_tiny_12: "rnd (12000) = Fin (12000)"
  by (rule rnd_eqI [where e = "13" and n = 6597069766656000]) simp_all

lemma rnd_tiny_13: "rnd (1113987628505969382263866610864057092752278104912338974621178157836093260956873639603307162788611484028664157958131400048942640535497630678397241525167421528375971067692284025387574540286669192167574136977618828443073844378732226982817458150696147261347682425229486764518636353541830004119558745414502833662535299161778108001) = PInf"
  by (rule rnd_overflow) simp

lemmas rnd_tiny = rnd_tiny_1 rnd_tiny_2 rnd_tiny_3 rnd_tiny_4 rnd_tiny_5 rnd_tiny_6 rnd_tiny_7 rnd_tiny_8 rnd_tiny_9 rnd_tiny_10 rnd_tiny_11 rnd_tiny_12 rnd_tiny_13

lemma emi_tiny_rate:
  "calculate_car_emi_f64 (Fin 1000) (rnd (1 / 10 ^ 13)) 1 = Inl ZeroDivisionError"
  by (simp add: calculate_car_emi_f64_def py_pow_def py_div_def f_sub_def rnd_tiny)


lemma emi_huge_rate:
  "calculate_car_emi_f64 (Fin 1000) (Fin 1200000) 9 = Inl OverflowError"
  by (simp add: calculate_car_emi_f64_def py_pow_def py_div_def f_sub_def rnd_tiny)

lemma exact_formula_tiny_rate:
  "\<exists>v. calculate_car_emi 1000 (3961408125713217 / 39614081257132168796771975168) 1 = Inr v
       \<and> 83 < v \<and> v < 84"
proof -
  let ?b = "15845632502852868839178165304939 / 15845632502852867518708790067200 :: rat"
  have q: "1 < ?b ^ 12" by (rule one_less_power) simp_all
  have ne: "?b ^ 12 \<noteq> 1"
    using order.strict_implies_not_eq [OF q] by (rule not_sym)
  have b: "83 < 1000 * (?b - 1) * ?b ^ 12 / (?b ^ 12 - 1)
         \<and> 1000 * (?b - 1) * ?b ^ 12 / (?b ^ 12 - 1) < 84"
    by (simp add: power_divide)
  have "calculate_car_emi 1000 (3961408125713217 / 39614081257132168796771975168) 1
          = Inr (1000 * (?b - 1) * ?b ^ 12 / (?b ^ 12 - 1))"
    using ne by (simp add: calculate_car_emi_def Let_def)
  with b show ?thesis by blast
qed

text \<open>
  C1. At principal 1000, annual rate \<^verbatim>\<open>1e-13\<close> and one year the monthly rate is not 0,
  so the zero-interest branch is not taken, but \<open>1 + r\<close> rounds to 1, the divisor
  \<open>(1 + r)^12 - 1\<close> is 0 and the program raises \<^verbatim>\<open>ZeroDivisionError\<close>; the formula of the
  docstring, evaluated exactly at the same rate, gives a value between 83 and 84. At
  principal 1000, annual rate 1200000 and nine years the power exceeds the range of a
  double and the program raises \<^verbatim>\<open>OverflowError\<close>.
\<close>

theorem installment_raises:
  "calculate_car_emi_f64 (Fin 1000) (rnd (1 / 10 ^ 13)) 1 = Inl ZeroDivisionError
   \<and> (\<exists>v. rnd (1 / 10 ^ 13) = Fin (3961408125713217 / 39614081257132168796771975168)
          \<and> calculate_car_emi 1000 (3961408125713217 / 39614081257132168796771975168) 1 = Inr v
          \<and> 83 < v \<and> v < 84)
   \<and> calculate_car_emi_f64 (Fin 1000) (Fin 1200000) 9 = Inl OverflowError"
  using emi_tiny_rate emi_huge_rate exact_formula_tiny_rate rnd_tiny_5 by simp

section \<open>The schedule in double precision\<close>


lemma month_row_f64_fields [simp]:
  "Year (month_row_f64 r e mp qp sy b m) = sy + (m - 1) div 12"
  "MonthNum_f64 (month_row_f64 r e mp qp sy b m) = m"
  "OldBalance_f64 (month_row_f64 r e mp qp sy b m) = b"
  "InterestPaid_f64 (month_row_f64 r e mp qp sy b m) = f_mul b r"
  "PrincipalPaid_f64 (month_row_f64 r e mp qp sy b m) = f_sub e (f_mul b r)"
  "Prepayment_f64 (month_row_f64 r e mp qp sy b m) = prepay_amount_f64 mp qp m"
  "NewBalance_f64 (month_row_f64 r e mp qp sy b m) =
     next_balance_f64 b (f_sub e (f_mul b r)) (prepay_amount_f64 mp qp m)"
  by (simp_all add: month_row_f64_def Let_def)

lemma rows_from_f64_stop:
  "\<not> (f_lt (Fin 0) b \<and> m \<le> tm) \<Longrightarrow> rows_from_f64 r e tm mp qp sy b m = []"
  by (subst rows_from_f64.simps) auto

lemma rows_from_f64_step:
  "f_lt (Fin 0) b \<Longrightarrow> m \<le> tm \<Longrightarrow> rows_from_f64 r e tm mp qp sy b m =
     month_row_f64 r e mp qp sy b m
     # rows_from_f64 r e tm mp qp sy
         (next_balance_f64 b (f_sub e (f_mul b r)) (prepay_amount_f64 mp qp m)) (m + 1)"
  by (subst rows_from_f64.simps) simp

lemma rows_from_f64_nth:
  "i < length (rows_from_f64 r e tm mp qp sy b m) \<Longrightarrow>
     \<exists>b'. f_lt (Fin 0) b' \<and> m + int i \<le> tm
          \<and> rows_from_f64 r e tm mp qp sy b m ! i = month_row_f64 r e mp qp sy b' (m + int i)"
proof (induction r e tm mp qp sy b m arbitrary: i rule: rows_from_f64.induct)
  case (1 r e tm mp qp sy b m)
  show ?case
  proof (cases "f_lt (Fin 0) b \<and> m \<le> tm")
    case True
    show ?thesis
    proof (cases i)
      case 0
      with True show ?thesis by (auto simp: rows_from_f64_step)
    next
      case (Suc j)
      with "1.prems" True
      have "j < length (rows_from_f64 r e tm mp qp sy
                          (NewBalance_f64 (month_row_f64 r e mp qp sy b m)) (m + 1))"
        by (simp add: rows_from_f64_step)
      from "1.IH" [OF True this] Suc True show ?thesis
        by (auto simp: rows_from_f64_step add.assoc)
    qed
  next
    case False
    with "1.prems" show ?thesis by (simp add: rows_from_f64_stop)
  qed
qed











end
